theory Spec2Isabelle
  imports Main "HOL-Library.Word"
begin

unbundle bit_operations_syntax

section \<open>Data model of prog/analysis.go\<close>

text \<open>
  The file under verification is \<^verbatim>\<open>prog/analysis.go\<close>. It works on the argument
  trees of syscall programs. The declarations of \<^verbatim>\<open>Arg\<close>, \<^verbatim>\<open>Call\<close>, \<^verbatim>\<open>Prog\<close> and the
  whole descriptor package \<^verbatim>\<open>sys\<close> live in other files; they are modelled here from the
  fields and methods that \<^verbatim>\<open>analysis.go\<close> uses and from the data model of the
  specification (section 3).

  \<^item> \<^verbatim>\<open>uintptr\<close> is a 64-bit word (\<open>+\<close> wraps).
  \<^item> An argument tree is a strict forest: a pointer node owns its pointee, a union node
    its option, a group node its children. So \<^verbatim>\<open>*Arg\<close> is a tree value, a pointer slot
    that the code tests against \<^verbatim>\<open>nil\<close> is an \<open>option\<close>, and an in-place update of
    a node is a rewrite of the tree at that position.
  \<^item> A panic or a run-time fault of Go is a value \<open>Inl e\<close> of the type \<open>error + 'a\<close>.
\<close>

type_synonym uintptr = "64 word"
type_synonym byte = "8 word"

datatype Dir = DirIn | DirOut | DirInOut

datatype BufferKind = BufferOpaque | BufferString | BufferFilename

text \<open>
  Modelled from the spec: the type descriptors of package \<^verbatim>\<open>sys\<close> (section 6: resource,
  buffer, array, struct, union, pointer, length, virtual-memory-region, each with a
  direction; the resource kind's name; the buffer's semantic kind; the length type's
  reference target and byte stride; padding). \<open>TypeName\<close> is the method \<^verbatim>\<open>Name()\<close>,
  \<open>TypeDir\<close> the method \<^verbatim>\<open>Dir()\<close>, \<open>DescName\<close> the field \<^verbatim>\<open>Desc.Name\<close>.
\<close>

datatype Type =
    ResourceType (TypeName: string) (TypeDir: Dir) (DescName: string)
  | BufferType (TypeName: string) (TypeDir: Dir) (BufKind: BufferKind)
  | LenType (TypeName: string) (TypeDir: Dir) (Buf: string) (ByteSize: uintptr)
  | VmaType (TypeName: string) (TypeDir: Dir)
  | ArrayType (TypeName: string) (TypeDir: Dir)
  | PtrType (TypeName: string) (TypeDir: Dir) (Optional: bool)
  | StructType (TypeName: string) (TypeDir: Dir)
  | UnionType (TypeName: string) (TypeDir: Dir)
  | OtherType (TypeName: string) (TypeDir: Dir) (Padding: bool)

text \<open>Modelled from the spec: \<^verbatim>\<open>sys.IsPad\<close>, true of pure padding fields only.\<close>

definition IsPad :: "Type \<Rightarrow> bool" where
  "IsPad t = (case t of OtherType n d p \<Rightarrow> p | _ \<Rightarrow> False)"

definition is_StructType :: "Type \<Rightarrow> bool" where
  "is_StructType t = (case t of StructType n d \<Rightarrow> True | _ \<Rightarrow> False)"

text \<open>Modelled from the spec: the kind tag of a node (section 3).\<close>

datatype ArgKind =
  ArgConst | ArgPointer | ArgPageSize | ArgData | ArgArray | ArgUnion | ArgStruct

datatype Arg = Arg
  (Type: Type)
  (Kind: ArgKind)
  (Val: uintptr)
  (AddrPage: uintptr)
  (AddrOffset: int)
  (AddrPagesNum: uintptr)
  (Data: "byte list")
  (Inner: "Arg list")
  (Res: "Arg option")
  (Option: "Arg option")

definition set_Val :: "uintptr \<Rightarrow> Arg \<Rightarrow> Arg" where
  "set_Val v a = Arg (Type a) (Kind a) v (AddrPage a) (AddrOffset a) (AddrPagesNum a)
     (Data a) (Inner a) (Res a) (Option a)"

definition set_Res :: "Arg option \<Rightarrow> Arg \<Rightarrow> Arg" where
  "set_Res r a = Arg (Type a) (Kind a) (Val a) (AddrPage a) (AddrOffset a) (AddrPagesNum a)
     (Data a) (Inner a) r (Option a)"

record Syscall =
  Name :: string
  CallName :: string

record Call =
  Meta :: Syscall
  Args :: "Arg list"
  Ret :: "Arg option"

text \<open>
  A program holds pointers to its calls, and \<^verbatim>\<open>analyze\<close> compares them by identity:
  a call pointer is an address, and a store gives the call at each address.
\<close>

type_synonym call_ptr = nat

record Prog =
  Calls :: "call_ptr list"

datatype error =
    PanicNotPages
  | PanicOutOfBounds
  | PanicLenRef string string
  | PanicSanitize string
  | PanicNilPointer
  | IndexOutOfRange
  | NilDereference

text \<open>\<^verbatim>\<open>xs[i]\<close> of Go: a run-time panic out of range.\<close>

definition index :: "'a list \<Rightarrow> nat \<Rightarrow> error + 'a" where
  "index xs i = (if i < length xs then Inr (xs ! i) else Inl IndexOutOfRange)"

text \<open>
  The constants of package \<^verbatim>\<open>sys\<close> that \<^verbatim>\<open>analysis.go\<close> names. Their values are not
  in the file, so they are a parameter of the functions that use them.
\<close>

record sys_consts =
  MAP_FIXED :: uintptr
  MAP_ANONYMOUS :: uintptr
  MREMAP_MAYMOVE :: uintptr
  MREMAP_FIXED :: uintptr
  S_IFREG :: uintptr
  S_IFIFO :: uintptr
  S_IFSOCK :: uintptr
  SYSLOG_ACTION_CONSOLE_OFF :: uintptr
  SYSLOG_ACTION_CONSOLE_ON :: uintptr
  SYSLOG_ACTION_SIZE_UNREAD :: uintptr
  FIFREEZE :: "32 word"
  FITHAW :: uintptr
  PTRACE_TRACEME :: uintptr
  InvalidFD :: uintptr

definition maxPages :: nat where
  "maxPages = 4 * 2 ^ 10"

record 'ct state =
  ct :: 'ct
  files :: "byte list \<rightharpoonup> bool"
  resources :: "string \<rightharpoonup> Arg list"
  strings :: "byte list \<rightharpoonup> bool"
  pages :: "nat \<Rightarrow> bool"

text \<open>Reading a Go map of slices: a missing key reads as the empty slice.\<close>

definition res_lookup :: "(string \<rightharpoonup> Arg list) \<Rightarrow> string \<Rightarrow> Arg list" where
  "res_lookup m k = (case m k of None \<Rightarrow> [] | Some xs \<Rightarrow> xs)"

definition newState :: "'ct \<Rightarrow> 'ct state" where
  "newState c = \<lparr>ct = c, files = Map.empty, resources = Map.empty, strings = Map.empty,
     pages = (\<lambda>i. False)\<rparr>"

section \<open>Argument tree traversal\<close>

text \<open>
  A callback gets the node, the base node and the sibling scope, and threads a state.
  The callbacks of this file read \<^verbatim>\<open>arg.Type\<close> first, so the call \<^verbatim>\<open>rec(arg.Option, ...)\<close>
  on a union node whose option is nil faults at once: the model faults there.
\<close>

type_synonym 's callback = "Arg \<Rightarrow> Arg option \<Rightarrow> Arg list option \<Rightarrow> 's \<Rightarrow> error + 's"

fun foreach_list :: "('a \<Rightarrow> 's \<Rightarrow> error + 's) \<Rightarrow> 'a list \<Rightarrow> 's \<Rightarrow> error + 's" where
  "foreach_list g [] s = Inr s"
| "foreach_list g (x # xs) s =
     (case g x s of Inl e \<Rightarrow> Inl e | Inr s' \<Rightarrow> foreach_list g xs s')"

lemma foreach_list_cong [fundef_cong]:
  "xs = ys \<Longrightarrow> s = t \<Longrightarrow> (\<And>x u. x \<in> set ys \<Longrightarrow> g x u = h x u)
   \<Longrightarrow> foreach_list g xs s = foreach_list h ys t"
proof (induction ys arbitrary: xs s t)
  case Nil
  then show ?case by simp
next
  case (Cons y ys)
  then show ?case by (auto split: sum.splits)
qed

fun rec_subarg :: "'s callback \<Rightarrow> Arg \<Rightarrow> Arg option \<Rightarrow> Arg list option \<Rightarrow> 's \<Rightarrow> error + 's" where
  "rec_subarg f (Arg t k v ap ao apn d inner res opt) base parent s =
     (case f (Arg t k v ap ao apn d inner res opt) base parent s of
        Inl e \<Rightarrow> Inl e
      | Inr s1 \<Rightarrow>
     (case foreach_list
             (\<lambda>arg1. rec_subarg f arg1 base (if is_StructType t then Some inner else parent))
             inner s1 of
        Inl e \<Rightarrow> Inl e
      | Inr s2 \<Rightarrow>
     (case (if k = ArgPointer
            then (case res of
                    None \<Rightarrow> Inr s2
                  | Some r \<Rightarrow> rec_subarg f r (Some (Arg t k v ap ao apn d inner res opt)) parent s2)
            else Inr s2) of
        Inl e \<Rightarrow> Inl e
      | Inr s3 \<Rightarrow>
     (if k = ArgUnion
      then (case opt of
              None \<Rightarrow> Inl NilDereference
            | Some ob \<Rightarrow> rec_subarg f ob base parent s3)
      else Inr s3))))"

definition foreachSubargImpl :: "Arg \<Rightarrow> Arg list option \<Rightarrow> 's callback \<Rightarrow> 's \<Rightarrow> error + 's" where
  "foreachSubargImpl arg parent f s = rec_subarg f arg None parent s"

definition foreachSubarg :: "Arg \<Rightarrow> 's callback \<Rightarrow> 's \<Rightarrow> error + 's" where
  "foreachSubarg arg f s = foreachSubargImpl arg None f s"

definition foreachArgArray :: "Arg list \<Rightarrow> Arg option \<Rightarrow> 's callback \<Rightarrow> 's \<Rightarrow> error + 's" where
  "foreachArgArray args ret f s =
     (case foreach_list (\<lambda>arg. foreachSubargImpl arg (Some args) f) args s of
        Inl e \<Rightarrow> Inl e
      | Inr s1 \<Rightarrow>
          (case ret of
             None \<Rightarrow> Inr s1
           | Some r \<Rightarrow> foreachSubargImpl r None f s1))"

definition foreachArg :: "Call \<Rightarrow> 's callback \<Rightarrow> 's \<Rightarrow> error + 's" where
  "foreachArg c f s = foreachArgArray (Args c) None f s"

section \<open>Resource and memory analysis state\<close>

text \<open>The callback of \<^verbatim>\<open>state.analyze\<close>: resources produced, strings and file names read.\<close>

definition observe :: "'ct state callback" where
  "observe arg base parent s =
     (case Type arg of
        ResourceType n d desc \<Rightarrow>
          (if d \<noteq> DirIn
           then Inr (s\<lparr>resources := (resources s)(desc \<mapsto> res_lookup (resources s) desc @ [arg])\<rparr>)
           else Inr s)
      | BufferType n d bk \<Rightarrow>
          (if d \<noteq> DirOut \<and> Kind arg = ArgData \<and> length (Data arg) \<noteq> 0
           then (case bk of
                   BufferString \<Rightarrow> Inr (s\<lparr>strings := (strings s)(Data arg \<mapsto> True)\<rparr>)
                 | BufferFilename \<Rightarrow> Inr (s\<lparr>files := (files s)(Data arg \<mapsto> True)\<rparr>)
                 | BufferOpaque \<Rightarrow> Inr s)
           else Inr s)
      | _ \<Rightarrow> Inr s)"

text \<open>
  The loop of \<^verbatim>\<open>addressable\<close>: \<^verbatim>\<open>for i := uintptr(0); i < n; i++ { s.pages[addr.AddrPage+i] = ok }\<close>.
  The page table is an array of \<open>maxPages\<close> booleans, modelled as a function on the
  indices; an index beyond the array is Go's run-time panic.
\<close>

lemma unat_inc:
  fixes i n :: uintptr
  assumes "i < n"
  shows "unat (i + 1) = unat i + 1"
proof -
  have "unat i < unat n"
    using assms by (simp add: word_less_nat_alt)
  moreover have "unat n < 2 ^ 64"
    using unsigned_less [of n] by simp
  ultimately have "unat i + 1 < 2 ^ 64"
    by simp
  then show ?thesis
    by (simp add: unat_word_ariths)
qed

function set_pages :: "(nat \<Rightarrow> bool) \<Rightarrow> uintptr \<Rightarrow> bool \<Rightarrow> uintptr \<Rightarrow> uintptr \<Rightarrow> error + (nat \<Rightarrow> bool)" where
  "set_pages pg page ok n i =
     (if i < n
      then (if unat (page + i) < maxPages
            then set_pages (pg(unat (page + i) := ok)) page ok n (i + 1)
            else Inl IndexOutOfRange)
      else Inr pg)"
  by pat_completeness auto
termination
proof (relation "measure (\<lambda>(pg, page, ok, n, i). unat n - unat i)")
  show "wf (measure (\<lambda>(pg, page, ok, n, i). unat n - unat i))"
    by simp
next
  fix pg :: "nat \<Rightarrow> bool" and page :: uintptr and ok :: bool and n i :: uintptr
  assume lt: "i < n"
  then have "unat i < unat n"
    by (simp add: word_less_nat_alt)
  then show "((pg(unat (page + i) := ok), page, ok, n, i + 1), (pg, page, ok, n, i))
      \<in> measure (\<lambda>(pg, page, ok, n, i). unat n - unat i)"
    using unat_inc [OF lt] by simp
qed

declare set_pages.simps [simp del]

definition page_count :: "Arg \<Rightarrow> uintptr" where
  "page_count sz = (if AddrOffset sz \<noteq> 0 then AddrPage sz + 1 else AddrPage sz)"

definition addressable :: "'ct state \<Rightarrow> Arg \<Rightarrow> Arg \<Rightarrow> bool \<Rightarrow> error + 'ct state" where
  "addressable s addr sz ok =
     (if Kind addr \<noteq> ArgPointer \<or> Kind sz \<noteq> ArgPageSize then Inl PanicNotPages
      else if AddrPage addr + page_count sz > of_nat maxPages then Inl PanicOutOfBounds
      else (case set_pages (pages s) (AddrPage addr) ok (page_count sz) 0 of
              Inl e \<Rightarrow> Inl e
            | Inr pg \<Rightarrow> Inr (s\<lparr>pages := pg\<rparr>)))"

text \<open>The loop of the \<^verbatim>\<open>io_submit\<close> case over the elements of the control-block array.\<close>

definition iocb_ptr :: "Arg \<Rightarrow> bool" where
  "iocb_ptr ptr = (Kind ptr = ArgPointer \<and>
     (case Res ptr of None \<Rightarrow> False | Some r \<Rightarrow> TypeName (Type r) = ''iocb''))"

fun io_submit_loop :: "Arg list \<Rightarrow> 'ct state \<Rightarrow> 'ct state" where
  "io_submit_loop [] s = s"
| "io_submit_loop (ptr # ptrs) s =
     io_submit_loop ptrs
       (if iocb_ptr ptr
        then s\<lparr>resources := (resources s)(''iocbptr'' \<mapsto> res_lookup (resources s) ''iocbptr'' @ [ptr])\<rparr>
        else s)"

text \<open>The method \<^verbatim>\<open>(s *state) analyze(c *Call)\<close>.\<close>

definition state_analyze :: "sys_consts \<Rightarrow> 'ct state \<Rightarrow> Call \<Rightarrow> error + 'ct state" where
  "state_analyze k s c =
     (case foreachArgArray (Args c) (Ret c) observe s of
        Inl e \<Rightarrow> Inl e
      | Inr s1 \<Rightarrow>
     (if Name (Meta c) = ''mmap'' then
        (case index (Args c) 1 of Inl e \<Rightarrow> Inl e | Inr len \<Rightarrow>
           if AddrPage len = 0 \<and> AddrOffset len = 0 then Inr s1
           else
             (case index (Args c) 4 of Inl e \<Rightarrow> Inl e | Inr flags \<Rightarrow>
             (case index (Args c) 3 of Inl e \<Rightarrow> Inl e | Inr fd \<Rightarrow>
                if Val flags AND MAP_ANONYMOUS k = 0 \<and> Kind fd = ArgConst \<and> Val fd = InvalidFD k
                then Inr s1
                else (case index (Args c) 0 of Inl e \<Rightarrow> Inl e | Inr addr \<Rightarrow>
                        addressable s1 addr len True))))
      else if Name (Meta c) = ''munmap'' then
        (case index (Args c) 0 of Inl e \<Rightarrow> Inl e | Inr addr \<Rightarrow>
        (case index (Args c) 1 of Inl e \<Rightarrow> Inl e | Inr sz \<Rightarrow>
           addressable s1 addr sz False))
      else if Name (Meta c) = ''mremap'' then
        (case index (Args c) 4 of Inl e \<Rightarrow> Inl e | Inr addr \<Rightarrow>
        (case index (Args c) 2 of Inl e \<Rightarrow> Inl e | Inr sz \<Rightarrow>
           addressable s1 addr sz True))
      else if Name (Meta c) = ''io_submit'' then
        (case index (Args c) 2 of Inl e \<Rightarrow> Inl e | Inr a2 \<Rightarrow>
           (case Res a2 of
              None \<Rightarrow> Inr s1
            | Some arr \<Rightarrow> Inr (io_submit_loop (Inner arr) s1)))
      else Inr s1))"

text \<open>
  \<^verbatim>\<open>analyze(ct, p, c)\<close>: the calls of \<open>p\<close> are folded into a fresh state up to the
  first one that is the pointer \<open>c\<close>.
\<close>

fun analyze_loop :: "sys_consts \<Rightarrow> (call_ptr \<Rightarrow> Call) \<Rightarrow> call_ptr list \<Rightarrow> call_ptr \<Rightarrow> 'ct state \<Rightarrow> error + 'ct state" where
  "analyze_loop k store [] c s = Inr s"
| "analyze_loop k store (c1 # cs) c s =
     (if c1 = c then Inr s
      else (case state_analyze k s (store c1) of
              Inl e \<Rightarrow> Inl e
            | Inr s' \<Rightarrow> analyze_loop k store cs c s'))"

definition analyze :: "sys_consts \<Rightarrow> (call_ptr \<Rightarrow> Call) \<Rightarrow> 'ct \<Rightarrow> Prog \<Rightarrow> call_ptr \<Rightarrow> error + 'ct state" where
  "analyze k store ct0 p c = analyze_loop k store (Calls p) c (newState ct0)"

section \<open>Size-field resolution\<close>

text \<open>
  Modelled from the spec: the constructors \<^verbatim>\<open>constArg\<close> and \<^verbatim>\<open>pageSizeArg\<close> are not in
  \<^verbatim>\<open>analysis.go\<close>. A constant node carries its type and its value, a page-size node its
  type, its page count and its byte offset; every other field is Go's zero value.
\<close>

definition constArg :: "Type \<Rightarrow> uintptr \<Rightarrow> Arg" where
  "constArg t v = Arg t ArgConst v 0 0 0 [] [] None None"

definition pageSizeArg :: "Type \<Rightarrow> uintptr \<Rightarrow> int \<Rightarrow> Arg" where
  "pageSizeArg t npages offset = Arg t ArgPageSize 0 npages offset 0 [] [] None None"

text \<open>
  Modelled from the spec: the method \<^verbatim>\<open>InnerArg\<close> is not in \<^verbatim>\<open>analysis.go\<close>. It looks
  through pointers: a node of pointer type stands for its pointee's inner node, and for
  nil when the pointer "is itself optional and currently absent" (section 4.3); any other
  node stands for itself. An absent pointer that is not optional is a malformed tree, a
  fatal contract violation (section 7).
\<close>

fun InnerArg :: "Arg \<Rightarrow> error + Arg option" where
  "InnerArg (Arg t k v ap ao apn d inner res opt) =
     (case t of
        PtrType n dir optional \<Rightarrow>
          (case res of
             None \<Rightarrow> if optional then Inr None else Inl PanicNilPointer
           | Some r \<Rightarrow> InnerArg r)
      | _ \<Rightarrow> Inr (Some (Arg t k v ap ao apn d inner res opt)))"

text \<open>
  The assignment \<^verbatim>\<open>*p = new\<close> for \<^verbatim>\<open>p = a.InnerArg()\<close>: the node that \<open>InnerArg\<close> finds
  under \<open>a\<close> is overwritten, the pointers above it stay.
\<close>

fun store_InnerArg :: "Arg \<Rightarrow> Arg \<Rightarrow> Arg" where
  "store_InnerArg new (Arg t k v ap ao apn d inner res opt) =
     (case t of
        PtrType n dir optional \<Rightarrow>
          (case res of
             None \<Rightarrow> Arg t k v ap ao apn d inner res opt
           | Some r \<Rightarrow> Arg t k v ap ao apn d inner (Some (store_InnerArg new r)) opt)
      | _ \<Rightarrow> new)"

text \<open>
  \<^verbatim>\<open>generateSize(arg, lenType)\<close>. The method \<^verbatim>\<open>Size()\<close> of a node is not in
  \<^verbatim>\<open>analysis.go\<close>: it is the parameter \<open>size_of\<close>. \<open>lenType\<close> is always a \<open>LenType\<close>.
\<close>

definition generateSize :: "(Arg \<Rightarrow> uintptr) \<Rightarrow> Arg option \<Rightarrow> Type \<Rightarrow> Arg" where
  "generateSize size_of arg lenType =
     (case arg of
        None \<Rightarrow> constArg lenType 0
      | Some a \<Rightarrow>
          (case Type a of
             VmaType n d \<Rightarrow> pageSizeArg lenType (AddrPagesNum a) 0
           | ArrayType n d \<Rightarrow>
               (if ByteSize lenType \<noteq> 0
                then constArg lenType (size_of a div ByteSize lenType)
                else constArg lenType (of_nat (length (Inner a))))
           | _ \<Rightarrow> constArg lenType (size_of a)))"

text \<open>
  The first loop of \<^verbatim>\<open>assignSizes\<close>: the total size, and the map from a field's name to
  the field. A field is a pointer into the sequence, so the map holds its position.
\<close>

fun args_scan :: "(Arg \<Rightarrow> uintptr) \<Rightarrow> Arg list \<Rightarrow> nat \<Rightarrow> uintptr \<Rightarrow> (string \<rightharpoonup> nat) \<Rightarrow> uintptr \<times> (string \<rightharpoonup> nat)" where
  "args_scan size_of [] i parentSize argsMap = (parentSize, argsMap)"
| "args_scan size_of (arg # args) i parentSize argsMap =
     args_scan size_of args (Suc i) (parentSize + size_of arg)
       (if IsPad (Type arg) then argsMap else argsMap(TypeName (Type arg) \<mapsto> i))"

text \<open>One round of the second loop, at position \<open>i\<close> of the sequence as it is by then.\<close>

definition fill_size :: "(Arg \<Rightarrow> uintptr) \<Rightarrow> uintptr \<Rightarrow> (string \<rightharpoonup> nat) \<Rightarrow> Arg list \<Rightarrow> nat \<Rightarrow> error + Arg list" where
  "fill_size size_of parentSize argsMap args i =
     (case InnerArg (args ! i) of
        Inl e \<Rightarrow> Inl e
      | Inr None \<Rightarrow> Inr args
      | Inr (Some arg) \<Rightarrow>
          (case Type arg of
             LenType n d buf bs \<Rightarrow>
               (if buf = ''parent''
                then Inr (args[i := store_InnerArg (set_Val parentSize arg) (args ! i)])
                else (case argsMap buf of
                        None \<Rightarrow> Inl (PanicLenRef n buf)
                      | Some j \<Rightarrow>
                          (case InnerArg (args ! j) of
                             Inl e \<Rightarrow> Inl e
                           | Inr b \<Rightarrow>
                               Inr (args[i := store_InnerArg (generateSize size_of b (Type arg))
                                                 (args ! i)]))))
           | _ \<Rightarrow> Inr args))"

fun fill_sizes :: "(Arg \<Rightarrow> uintptr) \<Rightarrow> uintptr \<Rightarrow> (string \<rightharpoonup> nat) \<Rightarrow> nat list \<Rightarrow> Arg list \<Rightarrow> error + Arg list" where
  "fill_sizes size_of parentSize argsMap [] args = Inr args"
| "fill_sizes size_of parentSize argsMap (i # is) args =
     (case fill_size size_of parentSize argsMap args i of
        Inl e \<Rightarrow> Inl e
      | Inr args' \<Rightarrow> fill_sizes size_of parentSize argsMap is args')"

definition assignSizes :: "(Arg \<Rightarrow> uintptr) \<Rightarrow> Arg list \<Rightarrow> error + Arg list" where
  "assignSizes size_of args =
     (case args_scan size_of args 0 0 Map.empty of
        (parentSize, argsMap) \<Rightarrow>
          fill_sizes size_of parentSize argsMap [0..<length args] args)"

section \<open>Call sanitizer\<close>

text \<open>\<^verbatim>\<open>c.Args[i].Val = v\<close>.\<close>

definition store_Val :: "Call \<Rightarrow> nat \<Rightarrow> uintptr \<Rightarrow> Call" where
  "store_Val c i v = c\<lparr>Args := (Args c)[i := set_Val v (Args c ! i)]\<rparr>"

definition sanitizeCall :: "sys_consts \<Rightarrow> Call \<Rightarrow> error + Call" where
  "sanitizeCall k c =
     (if CallName (Meta c) = ''mmap'' then
        (case index (Args c) 0 of Inl e \<Rightarrow> Inl e | Inr addr \<Rightarrow>
           if Kind addr \<noteq> ArgPointer then Inl (PanicSanitize ''mmap address is not ArgPointer'')
           else
        (case index (Args c) 1 of Inl e \<Rightarrow> Inl e | Inr len \<Rightarrow>
           if Kind len \<noteq> ArgPageSize then Inl (PanicSanitize ''mmap length is not ArgPageSize'')
           else
        (case index (Args c) 3 of Inl e \<Rightarrow> Inl e | Inr flags \<Rightarrow>
           if Kind flags \<noteq> ArgConst then Inl (PanicSanitize ''mmap flag arg is not const'')
           else Inr (store_Val c 3 (Val flags OR MAP_FIXED k)))))
      else if CallName (Meta c) = ''mremap'' then
        (case index (Args c) 3 of Inl e \<Rightarrow> Inl e | Inr flags \<Rightarrow>
           if Kind flags \<noteq> ArgConst then Inl (PanicSanitize ''mremap flag arg is not const'')
           else if Val flags AND MREMAP_MAYMOVE k \<noteq> 0
           then Inr (store_Val c 3 (Val flags OR MREMAP_FIXED k))
           else Inr c)
      else if CallName (Meta c) = ''mknod'' \<or> CallName (Meta c) = ''mknodat'' then
        (case index (Args c) 1 of Inl e \<Rightarrow> Inl e | Inr mode1 \<Rightarrow>
        (case (if CallName (Meta c) = ''mknodat''
               then (case index (Args c) 2 of Inl e \<Rightarrow> Inl e | Inr mode2 \<Rightarrow> Inr (2, mode2))
               else Inr (1, mode1)) of
           Inl e \<Rightarrow> Inl e
         | Inr (pos, mode) \<Rightarrow>
             if Kind mode \<noteq> ArgConst then Inl (PanicSanitize ''mknod mode is not const'')
             else if Val mode \<noteq> S_IFREG k \<and> Val mode \<noteq> S_IFIFO k \<and> Val mode \<noteq> S_IFSOCK k
             then Inr (store_Val c pos (S_IFIFO k))
             else Inr c))
      else if CallName (Meta c) = ''syslog'' then
        (case index (Args c) 0 of Inl e \<Rightarrow> Inl e | Inr cmd \<Rightarrow>
           if Val cmd = SYSLOG_ACTION_CONSOLE_OFF k \<or> Val cmd = SYSLOG_ACTION_CONSOLE_ON k
           then Inr (store_Val c 0 (SYSLOG_ACTION_SIZE_UNREAD k))
           else Inr c)
      else if CallName (Meta c) = ''ioctl'' then
        (case index (Args c) 1 of Inl e \<Rightarrow> Inl e | Inr cmd \<Rightarrow>
           if (ucast (Val cmd) :: 32 word) = FIFREEZE k
           then Inr (store_Val c 1 (FITHAW k))
           else Inr c)
      else if CallName (Meta c) = ''ptrace'' then
        (case index (Args c) 0 of Inl e \<Rightarrow> Inl e | Inr req \<Rightarrow>
           if Val req = PTRACE_TRACEME k
           then Inr (store_Val c 0 (NOT 0))
           else Inr c)
      else if CallName (Meta c) = ''exit'' \<or> CallName (Meta c) = ''exit_group'' then
        (case index (Args c) 0 of Inl e \<Rightarrow> Inl e | Inr code \<Rightarrow>
           if Val code mod 128 = 67 \<or> Val code mod 128 = 68
           then Inr (store_Val c 0 1)
           else Inr c)
      else Inr c)"

section \<open>Vocabulary of the properties and examples\<close>

text \<open>Two nodes that differ at most in the field \<^verbatim>\<open>Val\<close>.\<close>

definition same_but_Val :: "Arg \<Rightarrow> Arg \<Rightarrow> bool" where
  "same_but_Val a b = (Type a = Type b \<and> Kind a = Kind b \<and> AddrPage a = AddrPage b \<and>
     AddrOffset a = AddrOffset b \<and> AddrPagesNum a = AddrPagesNum b \<and> Data a = Data b \<and>
     Inner a = Inner b \<and> Res a = Res b \<and> Option a = Option b)"

text \<open>The call names of the rule table, and the position of the argument a rule rewrites.\<close>

definition rule_names :: "string list" where
  "rule_names = [''mmap'', ''mremap'', ''mknod'', ''mknodat'', ''syslog'', ''ioctl'', ''ptrace'',
     ''exit'', ''exit_group'']"

definition rule_arg :: "string \<Rightarrow> nat" where
  "rule_arg name =
     (if name = ''mmap'' \<or> name = ''mremap'' then 3
      else if name = ''mknod'' \<or> name = ''ioctl'' then 1
      else if name = ''mknodat'' then 2
      else 0)"

text \<open>The values of the constants on linux/amd64, and calls for the examples.\<close>

definition linux_consts :: sys_consts where
  "linux_consts = \<lparr>MAP_FIXED = 0x10, MAP_ANONYMOUS = 0x20, MREMAP_MAYMOVE = 1, MREMAP_FIXED = 2,
     S_IFREG = 0x8000, S_IFIFO = 0x1000, S_IFSOCK = 0xC000,
     SYSLOG_ACTION_CONSOLE_OFF = 6, SYSLOG_ACTION_CONSOLE_ON = 7, SYSLOG_ACTION_SIZE_UNREAD = 9,
     FIFREEZE = 0xC0045877, FITHAW = 0xC0045878, PTRACE_TRACEME = 0, InvalidFD = NOT 0\<rparr>"

definition int_arg :: "string \<Rightarrow> uintptr \<Rightarrow> Arg" where
  "int_arg name v = constArg (OtherType name DirIn False) v"

definition ex_mknod :: Call where
  "ex_mknod = \<lparr>Meta = \<lparr>Name = ''mknod'', CallName = ''mknod''\<rparr>,
     Args = [int_arg ''file'' 0, int_arg ''mode'' 0x6000, int_arg ''dev'' 0x103], Ret = None\<rparr>"

definition ex_mknodat :: Call where
  "ex_mknodat = \<lparr>Meta = \<lparr>Name = ''mknodat'', CallName = ''mknodat''\<rparr>,
     Args = [int_arg ''dirfd'' 3, int_arg ''file'' 0, int_arg ''mode'' 0x6000, int_arg ''dev'' 0x103],
     Ret = None\<rparr>"

definition ex_exit :: Call where
  "ex_exit = \<lparr>Meta = \<lparr>Name = ''exit'', CallName = ''exit''\<rparr>, Args = [int_arg ''code'' 195], Ret = None\<rparr>"

text \<open>
  Vocabulary of the properties of size-field resolution: type tests, and the premise that
  the size of a length field or of a pointer is fixed by its type, so that rewriting a
  length field changes no field's size.
\<close>

definition is_PtrType :: "Type \<Rightarrow> bool" where
  "is_PtrType t = (case t of PtrType n d opt \<Rightarrow> True | _ \<Rightarrow> False)"

definition is_LenType :: "Type \<Rightarrow> bool" where
  "is_LenType t = (case t of LenType n d buf bs \<Rightarrow> True | _ \<Rightarrow> False)"

definition size_by_type :: "(Arg \<Rightarrow> uintptr) \<Rightarrow> bool" where
  "size_by_type size_of =
     (\<forall>a b. Type a = Type b \<and> (is_LenType (Type a) \<or> is_PtrType (Type a)) \<longrightarrow> size_of a = size_of b)"

text \<open>
  The name map that the first loop of \<^verbatim>\<open>assignSizes\<close> builds, as a function of the
  fields' types alone.
\<close>

fun names_map :: "Type list \<Rightarrow> nat \<Rightarrow> (string \<rightharpoonup> nat) \<Rightarrow> (string \<rightharpoonup> nat)" where
  "names_map [] i argsMap = argsMap"
| "names_map (t # ts) i argsMap =
     names_map ts (Suc i) (if IsPad t then argsMap else argsMap(TypeName t \<mapsto> i))"

text \<open>
  What one round of the second loop of \<^verbatim>\<open>assignSizes\<close> stores at the position it visits.
\<close>

definition new_field :: "(Arg \<Rightarrow> uintptr) \<Rightarrow> uintptr \<Rightarrow> (string \<rightharpoonup> nat) \<Rightarrow> Arg list \<Rightarrow> Arg \<Rightarrow> error + Arg" where
  "new_field size_of parentSize argsMap args a =
     (case InnerArg a of
        Inl e \<Rightarrow> Inl e
      | Inr None \<Rightarrow> Inr a
      | Inr (Some arg) \<Rightarrow>
          (case Type arg of
             LenType n d buf bs \<Rightarrow>
               (if buf = ''parent''
                then Inr (store_InnerArg (set_Val parentSize arg) a)
                else (case argsMap buf of
                        None \<Rightarrow> Inl (PanicLenRef n buf)
                      | Some j \<Rightarrow>
                          (case InnerArg (args ! j) of
                             Inl e \<Rightarrow> Inl e
                           | Inr b \<Rightarrow> Inr (store_InnerArg (generateSize size_of b (Type arg)) a))))
           | _ \<Rightarrow> Inr a))"

text \<open>
  \<open>len_rewrite a a'\<close>: \<open>a'\<close> is \<open>a\<close>, or \<open>a\<close> with its inner length node overwritten by a node of
  the same type.
\<close>

definition len_rewrite :: "Arg \<Rightarrow> Arg \<Rightarrow> bool" where
  "len_rewrite a a' =
     (a' = a \<or> (\<exists>x new. InnerArg a = Inr (Some x) \<and> is_LenType (Type x) \<and> Type new = Type x \<and>
        a' = store_InnerArg new a))"

text \<open>
  A size function for the examples: 4 bytes for a scalar or padding field, 8 for a
  length field, pointer, resource or region, the payload's length for a buffer, and the
  sum over the children for a struct or array.
\<close>

fun example_size :: "Arg \<Rightarrow> uintptr" where
  "example_size (Arg t k v ap ao apn d inner res opt) =
     (case t of
        BufferType n dir bk \<Rightarrow> of_nat (length d)
      | StructType n dir \<Rightarrow> sum_list (map example_size inner)
      | ArrayType n dir \<Rightarrow> sum_list (map example_size inner)
      | UnionType n dir \<Rightarrow> (case opt of None \<Rightarrow> 0 | Some ob \<Rightarrow> example_size ob)
      | OtherType n dir p \<Rightarrow> 4
      | _ \<Rightarrow> 8)"

definition ex_array :: Arg where
  "ex_array = Arg (ArrayType ''arr'' DirIn) ArgArray 0 0 0 0 []
     [int_arg ''elem'' 10, int_arg ''elem'' 20, int_arg ''elem'' 30] None None"

definition ex_len :: "string \<Rightarrow> uintptr \<Rightarrow> Arg" where
  "ex_len buf stride = constArg (LenType ''len'' DirIn buf stride) 0"

definition ex_pad :: Arg where
  "ex_pad = constArg (OtherType ''pad'' DirIn True) 0"

section \<open>Properties of the call sanitizer\<close>

lemma same_but_Val_set_Val: "same_but_Val (set_Val v a) a"
  by (simp add: same_but_Val_def set_Val_def)

lemma same_but_Val_refl: "same_but_Val a a"
  by (simp add: same_but_Val_def)

lemma store_Val_frame:
  "Meta (store_Val c i v) = Meta c \<and> Ret (store_Val c i v) = Ret c \<and>
   length (Args (store_Val c i v)) = length (Args c) \<and>
   (\<forall>j<length (Args c). same_but_Val (Args (store_Val c i v) ! j) (Args c ! j)) \<and>
   (\<forall>j<length (Args c). j \<noteq> i \<longrightarrow> Args (store_Val c i v) ! j = Args c ! j)"
proof (cases "i < length (Args c)")
  case True
  then show ?thesis
    by (auto simp: store_Val_def nth_list_update same_but_Val_refl same_but_Val_set_Val)
next
  case False
  then show ?thesis
    by (auto simp: store_Val_def list_update_beyond same_but_Val_refl)
qed

lemma sanitizeCall_cases:
  assumes "sanitizeCall k c = Inr c'"
  shows "c' = c \<or> (\<exists>v. c' = store_Val c (rule_arg (CallName (Meta c))) v)"
proof -
  consider (mmap) "CallName (Meta c) = ''mmap''"
    | (mremap) "CallName (Meta c) = ''mremap''"
    | (mknod) "CallName (Meta c) = ''mknod''"
    | (mknodat) "CallName (Meta c) = ''mknodat''"
    | (syslog) "CallName (Meta c) = ''syslog''"
    | (ioctl) "CallName (Meta c) = ''ioctl''"
    | (ptrace) "CallName (Meta c) = ''ptrace''"
    | (exit) "CallName (Meta c) = ''exit''"
    | (exit_group) "CallName (Meta c) = ''exit_group''"
    | (other) "CallName (Meta c) \<notin> set rule_names"
    by (auto simp: rule_names_def)
  then show ?thesis
  proof cases
    case mmap
    with assms show ?thesis
      by (auto simp: sanitizeCall_def rule_arg_def split: sum.splits if_splits)
  next
    case mremap
    with assms show ?thesis
      by (auto simp: sanitizeCall_def rule_arg_def split: sum.splits if_splits)
  next
    case mknod
    with assms show ?thesis
      by (auto simp: sanitizeCall_def rule_arg_def split: sum.splits if_splits)
  next
    case mknodat
    with assms show ?thesis
      by (auto simp: sanitizeCall_def rule_arg_def split: sum.splits if_splits)
  next
    case syslog
    with assms show ?thesis
      by (auto simp: sanitizeCall_def rule_arg_def split: sum.splits if_splits)
  next
    case ioctl
    with assms show ?thesis
      by (auto simp: sanitizeCall_def rule_arg_def split: sum.splits if_splits)
  next
    case ptrace
    with assms show ?thesis
      by (auto simp: sanitizeCall_def rule_arg_def split: sum.splits if_splits)
  next
    case exit
    with assms show ?thesis
      by (auto simp: sanitizeCall_def rule_arg_def split: sum.splits if_splits)
  next
    case exit_group
    with assms show ?thesis
      by (auto simp: sanitizeCall_def rule_arg_def split: sum.splits if_splits)
  next
    case other
    with assms show ?thesis
      by (simp add: sanitizeCall_def rule_names_def)
  qed
qed

lemma sanitizeCall_const:
  assumes "sanitizeCall k c = Inr c'"
    and "CallName (Meta c) \<in> {''mmap'', ''mremap'', ''mknod'', ''mknodat''}"
  shows "Kind (Args c ! rule_arg (CallName (Meta c))) = ArgConst"
proof -
  consider (mmap) "CallName (Meta c) = ''mmap''"
    | (mremap) "CallName (Meta c) = ''mremap''"
    | (mknod) "CallName (Meta c) = ''mknod''"
    | (mknodat) "CallName (Meta c) = ''mknodat''"
    using assms(2) by auto
  then show ?thesis
  proof cases
    case mmap
    with assms(1) show ?thesis
      by (auto simp: sanitizeCall_def rule_arg_def index_def split: sum.splits if_splits)
  next
    case mremap
    with assms(1) show ?thesis
      by (auto simp: sanitizeCall_def rule_arg_def index_def split: sum.splits if_splits)
  next
    case mknod
    with assms(1) show ?thesis
      by (auto simp: sanitizeCall_def rule_arg_def index_def split: sum.splits if_splits)
  next
    case mknodat
    with assms(1) show ?thesis
      by (auto simp: sanitizeCall_def rule_arg_def index_def split: sum.splits if_splits)
  qed
qed

text \<open>
  Claim C10. \<^verbatim>\<open>sanitizeCall\<close> never changes the structure of a call. When it returns,
  the descriptor, the return value and the number of arguments are the same, every
  argument differs from the old one at most in \<^verbatim>\<open>Val\<close> (type, kind, address fields,
  \<^verbatim>\<open>Data\<close>, \<^verbatim>\<open>Inner\<close>, \<^verbatim>\<open>Res\<close> and \<^verbatim>\<open>Option\<close> are kept), and only the argument at the
  position of the call's rule can differ at all. For a call name outside the rule table
  the call is returned unchanged.
\<close>

theorem sanitizeCall_frame:
  "(sanitizeCall k c = Inr c' \<longrightarrow>
      Meta c' = Meta c \<and> Ret c' = Ret c \<and> length (Args c') = length (Args c) \<and>
      (\<forall>j<length (Args c). same_but_Val (Args c' ! j) (Args c ! j)) \<and>
      (\<forall>j<length (Args c). j \<noteq> rule_arg (CallName (Meta c)) \<longrightarrow> Args c' ! j = Args c ! j)) \<and>
   (CallName (Meta c) \<notin> set rule_names \<longrightarrow> sanitizeCall k c = Inr c)"
proof (intro conjI impI)
  assume "CallName (Meta c) \<notin> set rule_names"
  then show "sanitizeCall k c = Inr c"
    by (simp add: sanitizeCall_def rule_names_def)
next
  assume ok: "sanitizeCall k c = Inr c'"
  from sanitizeCall_cases [OF ok] 
  have *: "Meta c' = Meta c \<and> Ret c' = Ret c \<and> length (Args c') = length (Args c) \<and>
      (\<forall>j<length (Args c). same_but_Val (Args c' ! j) (Args c ! j)) \<and>
      (\<forall>j<length (Args c). j \<noteq> rule_arg (CallName (Meta c)) \<longrightarrow> Args c' ! j = Args c ! j)"
    using store_Val_frame [of c "rule_arg (CallName (Meta c))"]
    by (auto simp: same_but_Val_refl)
  from * show "Meta c' = Meta c" by simp
  from * show "Ret c' = Ret c" by simp
  from * show "length (Args c') = length (Args c)" by simp
  from * show "\<forall>j<length (Args c). same_but_Val (Args c' ! j) (Args c ! j)" by simp
  from * show "\<forall>j<length (Args c). j \<noteq> rule_arg (CallName (Meta c)) \<longrightarrow> Args c' ! j = Args c ! j" by simp
qed

theorem sanitizeCall_frame_witness:
  "sanitizeCall linux_consts ex_exit = Inr (store_Val ex_exit 0 1) \<and>
   same_but_Val (Args (store_Val ex_exit 0 1) ! 0) (Args ex_exit ! 0) \<and>
   Val (Args (store_Val ex_exit 0 1) ! 0) = 1 \<and>
   sanitizeCall linux_consts (ex_exit\<lparr>Meta := \<lparr>Name = ''getpid'', CallName = ''getpid''\<rparr>\<rparr>) =
     Inr (ex_exit\<lparr>Meta := \<lparr>Name = ''getpid'', CallName = ''getpid''\<rparr>\<rparr>)"
proof -
  have r: "sanitizeCall linux_consts ex_exit = Inr (store_Val ex_exit 0 1)"
    by (simp add: sanitizeCall_def ex_exit_def index_def int_arg_def constArg_def)
  have n: "CallName (Meta (ex_exit\<lparr>Meta := \<lparr>Name = ''getpid'', CallName = ''getpid''\<rparr>\<rparr>)) \<notin> set rule_names"
    by (simp add: rule_names_def)
  have l: "0 < length (Args ex_exit)"
    by (simp add: ex_exit_def)
  from sanitizeCall_frame [of linux_consts ex_exit "store_Val ex_exit 0 1"] r l
  have "same_but_Val (Args (store_Val ex_exit 0 1) ! 0) (Args ex_exit ! 0)"
    by blast
  moreover from sanitizeCall_frame [of linux_consts "ex_exit\<lparr>Meta := \<lparr>Name = ''getpid'', CallName = ''getpid''\<rparr>\<rparr>"] n
  have "sanitizeCall linux_consts (ex_exit\<lparr>Meta := \<lparr>Name = ''getpid'', CallName = ''getpid''\<rparr>\<rparr>) =
     Inr (ex_exit\<lparr>Meta := \<lparr>Name = ''getpid'', CallName = ''getpid''\<rparr>\<rparr>)"
    by blast
  moreover have "Val (Args (store_Val ex_exit 0 1) ! 0) = 1"
    by (simp add: store_Val_def ex_exit_def set_Val_def)
  ultimately show ?thesis using r by simp
qed

text \<open>
  Claim C8. For \<^verbatim>\<open>mknod\<close> (mode at position 1) and \<^verbatim>\<open>mknodat\<close> (mode at position 2)
  with a constant mode argument that is none of regular file, fifo and socket,
  \<^verbatim>\<open>sanitizeCall\<close> sets the mode to fifo and changes nothing else, whatever the other
  arguments are. For \<^verbatim>\<open>exit\<close> and \<^verbatim>\<open>exit_group\<close> with an exit code whose low 7 bits
  are 67 or 68, it sets the code to 1 and changes nothing else.
\<close>

theorem sanitizeCall_mknod_exit:
  "((CallName (Meta c) = ''mknod'' \<and> pos = 1 \<or> CallName (Meta c) = ''mknodat'' \<and> pos = 2) \<and>
    pos < length (Args c) \<and> Kind (Args c ! pos) = ArgConst \<and>
    Val (Args c ! pos) \<noteq> S_IFREG k \<and> Val (Args c ! pos) \<noteq> S_IFIFO k \<and>
    Val (Args c ! pos) \<noteq> S_IFSOCK k
    \<longrightarrow> sanitizeCall k c = Inr (c\<lparr>Args := (Args c)[pos := set_Val (S_IFIFO k) (Args c ! pos)]\<rparr>)) \<and>
   ((CallName (Meta c) = ''exit'' \<or> CallName (Meta c) = ''exit_group'') \<and>
    0 < length (Args c) \<and>
    (take_bit 7 (Val (Args c ! 0)) = 67 \<or> take_bit 7 (Val (Args c ! 0)) = 68)
    \<longrightarrow> sanitizeCall k c = Inr (c\<lparr>Args := (Args c)[0 := set_Val 1 (Args c ! 0)]\<rparr>))"
proof (intro conjI impI)
  assume a: "(CallName (Meta c) = ''mknod'' \<and> pos = 1 \<or> CallName (Meta c) = ''mknodat'' \<and> pos = 2) \<and>
    pos < length (Args c) \<and> Kind (Args c ! pos) = ArgConst \<and>
    Val (Args c ! pos) \<noteq> S_IFREG k \<and> Val (Args c ! pos) \<noteq> S_IFIFO k \<and>
    Val (Args c ! pos) \<noteq> S_IFSOCK k"
  then consider (mknod) "CallName (Meta c) = ''mknod''" "pos = 1"
    | (mknodat) "CallName (Meta c) = ''mknodat''" "pos = 2"
    by blast
  then show "sanitizeCall k c = Inr (c\<lparr>Args := (Args c)[pos := set_Val (S_IFIFO k) (Args c ! pos)]\<rparr>)"
  proof cases
    case mknod
    with a show ?thesis
      by (simp add: sanitizeCall_def index_def store_Val_def)
  next
    case mknodat
    with a show ?thesis
      by (simp add: sanitizeCall_def index_def store_Val_def)
  qed
next
  assume a: "(CallName (Meta c) = ''exit'' \<or> CallName (Meta c) = ''exit_group'') \<and>
    0 < length (Args c) \<and>
    (take_bit 7 (Val (Args c ! 0)) = 67 \<or> take_bit 7 (Val (Args c ! 0)) = 68)"
  have m: "Val (Args c ! 0) mod 128 = take_bit 7 (Val (Args c ! 0))"
    by (simp add: take_bit_eq_mod)
  from a consider (exit) "CallName (Meta c) = ''exit''" | (exit_group) "CallName (Meta c) = ''exit_group''"
    by blast
  then show "sanitizeCall k c = Inr (c\<lparr>Args := (Args c)[0 := set_Val 1 (Args c ! 0)]\<rparr>)"
  proof cases
    case exit
    with a m show ?thesis
      by (simp add: sanitizeCall_def index_def store_Val_def)
  next
    case exit_group
    with a m show ?thesis
      by (simp add: sanitizeCall_def index_def store_Val_def)
  qed
qed

theorem sanitizeCall_mknod_exit_witness:
  "sanitizeCall linux_consts ex_mknod =
     Inr (ex_mknod\<lparr>Args := [int_arg ''file'' 0, int_arg ''mode'' 0x1000, int_arg ''dev'' 0x103]\<rparr>) \<and>
   sanitizeCall linux_consts ex_mknodat =
     Inr (ex_mknodat\<lparr>Args := [int_arg ''dirfd'' 3, int_arg ''file'' 0, int_arg ''mode'' 0x1000,
       int_arg ''dev'' 0x103]\<rparr>) \<and>
   sanitizeCall linux_consts ex_exit = Inr (ex_exit\<lparr>Args := [int_arg ''code'' 1]\<rparr>)"
proof -
  have t: "take_bit 7 (195 :: uintptr) = 67"
    by (simp add: take_bit_eq_mod)
  show ?thesis
  using sanitizeCall_mknod_exit [of ex_mknod 1 linux_consts]
    sanitizeCall_mknod_exit [of ex_mknodat 2 linux_consts]
    sanitizeCall_mknod_exit [of ex_exit 0 linux_consts] t
  by (simp add: ex_mknod_def ex_mknodat_def ex_exit_def linux_consts_def int_arg_def constArg_def
      set_Val_def)
qed

section \<open>Properties of size-field resolution\<close>

lemma is_PtrType_simps [simp]:
  "is_PtrType (PtrType n d opt)" "\<not> is_PtrType (LenType n d buf bs)"
  "\<not> is_PtrType (ArrayType n d)" "\<not> is_PtrType (VmaType n d)"
  by (simp_all add: is_PtrType_def)

lemma is_LenType_simps [simp]:
  "is_LenType (LenType n d buf bs)" "\<not> is_LenType (PtrType n d opt)"
  "\<not> is_LenType (ArrayType n d)" "\<not> is_LenType (VmaType n d)"
  by (simp_all add: is_LenType_def)

lemma is_LenType_not_Ptr: "is_LenType t \<Longrightarrow> \<not> is_PtrType t"
  by (cases t) (simp_all add: is_LenType_def is_PtrType_def)

lemma set_Val_sel [simp]:
  "Type (set_Val v a) = Type a" "Val (set_Val v a) = v" "Kind (set_Val v a) = Kind a"
  "set_Val v (set_Val w a) = set_Val v a"
  by (simp_all add: set_Val_def)

lemma constArg_sel [simp]:
  "Type (constArg t v) = t" "Val (constArg t v) = v" "Kind (constArg t v) = ArgConst"
  by (simp_all add: constArg_def)

lemma pageSizeArg_sel [simp]:
  "Type (pageSizeArg t n off) = t" "Kind (pageSizeArg t n off) = ArgPageSize"
  "AddrPage (pageSizeArg t n off) = n"
  by (simp_all add: pageSizeArg_def)

lemma Type_generateSize [simp]: "Type (generateSize size_of b t) = t"
  by (simp add: generateSize_def split: option.splits Type.splits)

lemma InnerArg_nonptr: "\<not> is_PtrType (Type a) \<Longrightarrow> InnerArg a = Inr (Some a)"
  by (cases a) (simp add: is_PtrType_def split: Type.splits)

lemma InnerArg_Some_cases:
  assumes "InnerArg (Arg t k v ap ao apn d inner res opt) = Inr (Some x)"
  shows "(is_PtrType t \<and> (\<exists>r. res = Some r \<and> InnerArg r = Inr (Some x))) \<or>
         (\<not> is_PtrType t \<and> x = Arg t k v ap ao apn d inner res opt)"
  using assms by (cases t) (auto simp: is_PtrType_def split: option.splits if_splits)

lemma InnerArg_result_nonptr: "InnerArg a = Inr (Some x) \<Longrightarrow> \<not> is_PtrType (Type x)"
proof (induction a rule: InnerArg.induct)
  case (1 t k v ap ao apn d inner res opt)
  from InnerArg_Some_cases [OF "1.prems"] show ?case
  proof
    assume "is_PtrType t \<and> (\<exists>r. res = Some r \<and> InnerArg r = Inr (Some x))"
    then obtain r n dir optional where "t = PtrType n dir optional" "res = Some r"
        "InnerArg r = Inr (Some x)"
      by (cases t) (auto simp: is_PtrType_def)
    then show ?thesis using "1.IH" by blast
  next
    assume "\<not> is_PtrType t \<and> x = Arg t k v ap ao apn d inner res opt"
    then show ?thesis by simp
  qed
qed

lemma InnerArg_self: "InnerArg a = Inr (Some x) \<Longrightarrow> \<not> is_PtrType (Type a) \<Longrightarrow> x = a"
  by (simp add: InnerArg_nonptr)

lemma InnerArg_store:
  "InnerArg a = Inr (Some x) \<Longrightarrow> \<not> is_PtrType (Type new) \<Longrightarrow>
   InnerArg (store_InnerArg new a) = Inr (Some new)"
proof (induction a rule: InnerArg.induct)
  case (1 t k v ap ao apn d inner res opt)
  from InnerArg_Some_cases [OF "1.prems"(1)] show ?case
  proof
    assume "is_PtrType t \<and> (\<exists>r. res = Some r \<and> InnerArg r = Inr (Some x))"
    then obtain r n dir optional where t: "t = PtrType n dir optional" and r: "res = Some r"
        "InnerArg r = Inr (Some x)"
      by (cases t) (auto simp: is_PtrType_def)
    from "1.IH" [OF t r(1) r(2) "1.prems"(2)] t r show ?thesis by simp
  next
    assume "\<not> is_PtrType t \<and> x = Arg t k v ap ao apn d inner res opt"
    then have "store_InnerArg new (Arg t k v ap ao apn d inner res opt) = new"
      by (cases t) (simp_all add: is_PtrType_def)
    then show ?thesis using "1.prems"(2) by (simp add: InnerArg_nonptr)
  qed
qed

lemma store_store:
  "InnerArg a = Inr (Some x) \<Longrightarrow> \<not> is_PtrType (Type n1) \<Longrightarrow>
   store_InnerArg n2 (store_InnerArg n1 a) = store_InnerArg n2 a"
proof (induction a rule: InnerArg.induct)
  case (1 t k v ap ao apn d inner res opt)
  show ?case
  proof (cases "is_PtrType t")
    case True
    then obtain n dir optional where t: "t = PtrType n dir optional"
      by (cases t) (simp_all add: is_PtrType_def)
    with "1.prems" obtain r where r: "res = Some r" "InnerArg r = Inr (Some x)"
      by (auto split: option.splits if_splits)
    with "1.IH" [OF t r(1)] "1.prems" t show ?thesis
      by simp
  next
    case False
    then have "store_InnerArg n1 (Arg t k v ap ao apn d inner res opt) = n1"
      by (cases t) (simp_all add: is_PtrType_def)
    moreover have "store_InnerArg n2 n1 = n2"
      using "1.prems"(2) by (cases n1) (auto simp: is_PtrType_def split: Type.splits)
    moreover have "store_InnerArg n2 (Arg t k v ap ao apn d inner res opt) = n2"
      using False by (cases t) (simp_all add: is_PtrType_def)
    ultimately show ?thesis by simp
  qed
qed

lemma Type_store:
  "InnerArg a = Inr (Some x) \<Longrightarrow> Type new = Type x \<Longrightarrow> Type (store_InnerArg new a) = Type a"
  by (cases a) (auto split: Type.splits option.splits if_splits)

lemma args_scan_eq:
  "args_scan size_of args i ps m = (ps + sum_list (map size_of args), names_map (map Type args) i m)"
  by (induction args arbitrary: i ps m) (simp_all add: add.assoc)

lemma names_map_absent:
  "(\<forall>j<length ts. IsPad (ts ! j) \<or> TypeName (ts ! j) \<noteq> nm) \<Longrightarrow> names_map ts i m nm = m nm"
proof (induction ts arbitrary: i m)
  case Nil
  then show ?case by simp
next
  case (Cons t ts)
  have "\<forall>j<length ts. IsPad (ts ! j) \<or> TypeName (ts ! j) \<noteq> nm"
    using Cons.prems by auto
  moreover have "IsPad t \<or> TypeName t \<noteq> nm"
    using Cons.prems by auto
  ultimately show ?case using Cons.IH by auto
qed

lemma names_map_last:
  "j < length ts \<Longrightarrow> \<not> IsPad (ts ! j) \<Longrightarrow> TypeName (ts ! j) = nm \<Longrightarrow>
   (\<forall>j'. j < j' \<and> j' < length ts \<longrightarrow> IsPad (ts ! j') \<or> TypeName (ts ! j') \<noteq> nm) \<Longrightarrow>
   names_map ts i m nm = Some (i + j)"
proof (induction ts arbitrary: i m j)
  case Nil
  then show ?case by simp
next
  case (Cons t ts)
  show ?case
  proof (cases j)
    case 0
    have "\<forall>j'<length ts. IsPad (ts ! j') \<or> TypeName (ts ! j') \<noteq> nm"
    proof (intro allI impI)
      fix j' assume "j' < length ts"
      then show "IsPad (ts ! j') \<or> TypeName (ts ! j') \<noteq> nm"
        using Cons.prems(4) [rule_format, of "Suc j'"] 0 by simp
    qed
    from names_map_absent [OF this] Cons.prems 0 show ?thesis by simp
  next
    case (Suc j0)
    have "\<forall>j'. j0 < j' \<and> j' < length ts \<longrightarrow> IsPad (ts ! j') \<or> TypeName (ts ! j') \<noteq> nm"
    proof (intro allI impI)
      fix j' assume "j0 < j' \<and> j' < length ts"
      then show "IsPad (ts ! j') \<or> TypeName (ts ! j') \<noteq> nm"
        using Cons.prems(4) [rule_format, of "Suc j'"] Suc by simp
    qed
    from Cons.IH [of j0, OF _ _ _ this] Cons.prems Suc show ?thesis by simp
  qed
qed

lemma names_map_range:
  "names_map ts i m nm = Some j \<Longrightarrow> m nm = Some j \<or> (i \<le> j \<and> j < i + length ts)"
proof (induction ts arbitrary: i m)
  case Nil
  then show ?case by simp
next
  case (Cons t ts)
  from Cons.IH [OF Cons.prems [simplified]] show ?case
    by (auto split: if_splits)
qed

lemma fill_size_new_field:
  "i < length args \<Longrightarrow>
   fill_size size_of ps m args i =
     (case new_field size_of ps m args (args ! i) of Inl e \<Rightarrow> Inl e | Inr a \<Rightarrow> Inr (args[i := a]))"
  by (simp add: fill_size_def new_field_def split: sum.splits option.splits Type.splits)

lemma fill_sizes_upt:
  "fill_sizes size_of ps m [k..<n] cur = Inr fin \<Longrightarrow> n \<le> length cur \<Longrightarrow>
   length fin = length cur \<and>
   (\<forall>i. i < k \<or> n \<le> i \<longrightarrow> fin ! i = cur ! i) \<and>
   (\<forall>i. k \<le> i \<and> i < n \<longrightarrow>
      new_field size_of ps m (take i fin @ drop i cur) (cur ! i) = Inr (fin ! i))"
proof (induction "n - k" arbitrary: k cur)
  case 0
  then have nk: "n \<le> k" by simp
  then have "[k..<n] = []" by simp
  with "0.prems" have "fin = cur" by simp
  then show ?case using nk by auto
next
  case (Suc d)
  then have kn: "k < n" by simp
  then have upt: "[k..<n] = k # [Suc k..<n]"
    by (simp add: upt_conv_Cons)
  from kn Suc.prems(2) have kl: "k < length cur" by simp
  from Suc.prems(1) upt obtain cur1 where
    c1: "fill_size size_of ps m cur k = Inr cur1" and
    rest: "fill_sizes size_of ps m [Suc k..<n] cur1 = Inr fin"
    by (auto split: sum.splits)
  from c1 fill_size_new_field [OF kl, of size_of ps m] obtain a where
    a: "new_field size_of ps m cur (cur ! k) = Inr a" and cur1: "cur1 = cur[k := a]"
    by (auto split: sum.splits)
  have d: "d = n - Suc k" using Suc.hyps(2) by simp
  have len1: "n \<le> length cur1" using Suc.prems(2) cur1 by simp
  from Suc.hyps(1) [OF d rest len1] have
    l: "length fin = length cur1" and
    out: "\<forall>i. i < Suc k \<or> n \<le> i \<longrightarrow> fin ! i = cur1 ! i" and
    ins: "\<forall>i. Suc k \<le> i \<and> i < n \<longrightarrow>
      new_field size_of ps m (take i fin @ drop i cur1) (cur1 ! i) = Inr (fin ! i)"
    by blast+
  have 1: "length fin = length cur" using l cur1 by simp
  have 2: "\<forall>i. i < k \<or> n \<le> i \<longrightarrow> fin ! i = cur ! i"
  proof (intro allI impI)
    fix i assume i: "i < k \<or> n \<le> i"
    then have "fin ! i = cur1 ! i" using out by auto
    moreover have "i \<noteq> k" using i kn by auto
    ultimately show "fin ! i = cur ! i" using cur1 by simp
  qed
  have fk: "fin ! k = a" using out [rule_format, of k] cur1 kl by simp
  have tk: "take k fin @ drop k cur = cur"
  proof (rule nth_equalityI)
    show "length (take k fin @ drop k cur) = length cur" using 1 kl by simp
  next
    fix i assume "i < length (take k fin @ drop k cur)"
    then show "(take k fin @ drop k cur) ! i = cur ! i"
      using 1 kl 2 by (auto simp: nth_append)
  qed
  have 3: "\<forall>i. k \<le> i \<and> i < n \<longrightarrow>
      new_field size_of ps m (take i fin @ drop i cur) (cur ! i) = Inr (fin ! i)"
  proof (intro allI impI)
    fix i assume i: "k \<le> i \<and> i < n"
    show "new_field size_of ps m (take i fin @ drop i cur) (cur ! i) = Inr (fin ! i)"
    proof (cases "i = k")
      case True
      then show ?thesis using tk a fk by simp
    next
      case False
      then have ik: "Suc k \<le> i" using i by simp
      then have "drop i cur1 = drop i cur" using cur1 by simp
      moreover have "cur1 ! i = cur ! i" using cur1 False by simp
      ultimately show ?thesis using ins [rule_format, of i] ik i by simp
    qed
  qed
  from 1 2 3 show ?case by blast
qed

lemma fill_sizes_fixed:
  "(\<forall>i \<in> set is. fill_size size_of ps m fin i = Inr fin) \<Longrightarrow>
   fill_sizes size_of ps m is fin = Inr fin"
  by (induction "is") simp_all

lemma assignSizes_char:
  assumes "assignSizes size_of args = Inr fin"
  shows "length fin = length args \<and>
    (\<forall>i<length args.
       new_field size_of (sum_list (map size_of args)) (names_map (map Type args) 0 Map.empty)
         (take i fin @ drop i args) (args ! i) = Inr (fin ! i))"
proof -
  from assms have "fill_sizes size_of (sum_list (map size_of args))
      (names_map (map Type args) 0 Map.empty) [0..<length args] args = Inr fin"
    by (simp add: assignSizes_def args_scan_eq)
  from fill_sizes_upt [OF this] show ?thesis by simp
qed

lemma new_field_rewrite:
  assumes "new_field size_of ps m st a = Inr a'"
  shows "len_rewrite a a'"
proof (cases "InnerArg a")
  case (Inl e)
  with assms show ?thesis by (simp add: new_field_def)
next
  case (Inr b)
  show ?thesis
  proof (cases b)
    case None
    with Inr assms show ?thesis by (simp add: new_field_def len_rewrite_def)
  next
    case (Some x)
    show ?thesis
    proof (cases "is_LenType (Type x)")
      case False
      with Inr Some assms have "a' = a"
        by (simp add: new_field_def is_LenType_def split: Type.splits)
      then show ?thesis by (simp add: len_rewrite_def)
    next
      case True
      then obtain n d buf bs where t: "Type x = LenType n d buf bs"
        by (cases "Type x") (simp_all add: is_LenType_def)
      with Inr Some assms have "a' = store_InnerArg (set_Val ps x) a \<or>
          (\<exists>b. a' = store_InnerArg (generateSize size_of b (Type x)) a)"
        by (auto simp: new_field_def split: if_splits option.splits sum.splits)
      then have "\<exists>new. Type new = Type x \<and> a' = store_InnerArg new a"
      proof
        assume "a' = store_InnerArg (set_Val ps x) a"
        then have "Type (set_Val ps x) = Type x \<and> a' = store_InnerArg (set_Val ps x) a"
          by simp
        then show ?thesis by blast
      next
        assume "\<exists>b. a' = store_InnerArg (generateSize size_of b (Type x)) a"
        then obtain b where "a' = store_InnerArg (generateSize size_of b (Type x)) a" by blast
        then have "Type (generateSize size_of b (Type x)) = Type x \<and>
            a' = store_InnerArg (generateSize size_of b (Type x)) a"
          by simp
        then show ?thesis by blast
      qed
      with Inr Some True show ?thesis by (auto simp: len_rewrite_def)
    qed
  qed
qed

lemma len_rewrite_Type: "len_rewrite a a' \<Longrightarrow> Type a' = Type a"
  by (auto simp: len_rewrite_def Type_store)

lemma len_rewrite_size:
  assumes "len_rewrite a a'" and "size_by_type size_of"
  shows "size_of a' = size_of a"
proof (cases "a' = a")
  case True
  then show ?thesis by simp
next
  case False
  with assms(1) obtain x new where x: "InnerArg a = Inr (Some x)" "is_LenType (Type x)"
      "Type new = Type x" "a' = store_InnerArg new a"
    by (auto simp: len_rewrite_def)
  have ty: "Type a' = Type a" using assms(1) by (rule len_rewrite_Type)
  show ?thesis
  proof (cases "is_PtrType (Type a)")
    case True
    with ty assms(2) show ?thesis unfolding size_by_type_def by metis
  next
    case False
    with x(1) have "x = a" by (rule InnerArg_self)
    with x(2) ty assms(2) show ?thesis unfolding size_by_type_def by metis
  qed
qed

lemma len_rewrite_target:
  assumes "len_rewrite a a'" and "size_by_type size_of" and "InnerArg a = Inr b"
  shows "\<exists>b'. InnerArg a' = Inr b' \<and> generateSize size_of b' t = generateSize size_of b t"
proof (cases "a' = a")
  case True
  with assms(3) show ?thesis by simp
next
  case False
  with assms(1) obtain x new where x: "InnerArg a = Inr (Some x)" "is_LenType (Type x)"
      "Type new = Type x" "a' = store_InnerArg new a"
    by (auto simp: len_rewrite_def)
  from x have np: "\<not> is_PtrType (Type new)" by (simp add: is_LenType_not_Ptr)
  from InnerArg_store [OF x(1) np] x(4) have i': "InnerArg a' = Inr (Some new)" by simp
  from x(1) assms(3) have b: "b = Some x" by simp
  from x(2) x(3) assms(2) have sz: "size_of new = size_of x"
    unfolding size_by_type_def by metis
  from x(2) obtain n d buf bs where "Type x = LenType n d buf bs"
    by (cases "Type x") (simp_all add: is_LenType_def)
  with x(3) sz have "generateSize size_of (Some new) t = generateSize size_of (Some x) t"
    by (simp add: generateSize_def)
  with i' b show ?thesis by simp
qed

lemma new_field_again:
  assumes H: "size_by_type size_of"
    and nf: "new_field size_of ps m st a = Inr a'"
    and tg: "\<forall>buf j. m buf = Some j \<longrightarrow> len_rewrite (st ! j) (fin ! j)"
  shows "new_field size_of ps m fin a' = Inr a'"
proof (cases "InnerArg a")
  case (Inl e)
  with nf show ?thesis by (simp add: new_field_def)
next
  case (Inr b0)
  show ?thesis
  proof (cases b0)
    case None
    with Inr nf have "a' = a" by (simp add: new_field_def)
    with Inr None show ?thesis by (simp add: new_field_def)
  next
    case (Some x)
    have ia: "InnerArg a = Inr (Some x)" using Inr Some by simp
    show ?thesis
    proof (cases "is_LenType (Type x)")
      case False
      with ia nf have "a' = a"
        by (simp add: new_field_def is_LenType_def split: Type.splits)
      with ia False show ?thesis
        by (simp add: new_field_def is_LenType_def split: Type.splits)
    next
      case True
      then obtain n d buf bs where t: "Type x = LenType n d buf bs"
        by (cases "Type x") (simp_all add: is_LenType_def)
      show ?thesis
      proof (cases "buf = ''parent''")
        case True
        with ia t nf have a': "a' = store_InnerArg (set_Val ps x) a"
          by (simp add: new_field_def)
        have np: "\<not> is_PtrType (Type (set_Val ps x))" using t by simp
        from InnerArg_store [OF ia np] a' have ia': "InnerArg a' = Inr (Some (set_Val ps x))"
          by simp
        have "store_InnerArg (set_Val ps x) a' = a'"
          using store_store [OF ia np] a' by simp
        with ia' t True show ?thesis by (simp add: new_field_def)
      next
        case False
        with ia t nf obtain j b where j: "m buf = Some j" and b: "InnerArg (st ! j) = Inr b"
            and a': "a' = store_InnerArg (generateSize size_of b (Type x)) a"
          by (auto simp: new_field_def split: option.splits sum.splits)
        let ?g = "generateSize size_of b (Type x)"
        have np: "\<not> is_PtrType (Type ?g)" using t by simp
        from InnerArg_store [OF ia np] a' have ia': "InnerArg a' = Inr (Some ?g)"
          by simp
        from tg j have "len_rewrite (st ! j) (fin ! j)" by blast
        from len_rewrite_target [OF this H b, of "Type x"] obtain b' where
          b': "InnerArg (fin ! j) = Inr b'" "generateSize size_of b' (Type x) = ?g"
          by blast
        have "store_InnerArg ?g a' = a'"
          using store_store [OF ia np] a' by simp
        with ia' t False j b' show ?thesis by (simp add: new_field_def)
      qed
    qed
  qed
qed

lemma names_map_bound:
  "names_map (map Type args) 0 Map.empty buf = Some j \<Longrightarrow> j < length args"
  using names_map_range [of "map Type args" 0 Map.empty buf j] by simp

lemma assignSizes_rewrite:
  assumes "assignSizes size_of args = Inr fin" and "i < length args"
  shows "len_rewrite (args ! i) (fin ! i)"
  using assignSizes_char [OF assms(1)] assms(2) new_field_rewrite by blast

lemma len_rewrite_refl: "len_rewrite a a"
  by (simp add: len_rewrite_def)

lemma assignSizes_again:
  assumes H: "size_by_type size_of" and r: "assignSizes size_of args = Inr fin"
  shows "assignSizes size_of fin = Inr fin"
proof -
  let ?ps = "sum_list (map size_of args)"
  let ?m = "names_map (map Type args) 0 Map.empty"
  from assignSizes_char [OF r] have len: "length fin = length args"
    and nf: "\<forall>i<length args. new_field size_of ?ps ?m (take i fin @ drop i args) (args ! i) = Inr (fin ! i)"
    by blast+
  have rw: "\<forall>i<length args. len_rewrite (args ! i) (fin ! i)"
    using assignSizes_rewrite [OF r] by blast
  have types: "map Type fin = map Type args"
    by (rule nth_equalityI) (use len rw len_rewrite_Type in auto)
  have sizes: "map size_of fin = map size_of args"
    by (rule nth_equalityI) (use len rw len_rewrite_size [OF _ H] in auto)
  have fixed: "\<forall>i<length fin. fill_size size_of ?ps ?m fin i = Inr fin"
  proof (intro allI impI)
    fix i assume i: "i < length fin"
    then have ia: "i < length args" using len by simp
    have tg: "\<forall>buf j. ?m buf = Some j \<longrightarrow> len_rewrite ((take i fin @ drop i args) ! j) (fin ! j)"
    proof (intro allI impI)
      fix buf j assume "?m buf = Some j"
      then have j: "j < length args" by (rule names_map_bound)
      show "len_rewrite ((take i fin @ drop i args) ! j) (fin ! j)"
      proof (cases "j < i")
        case True
        then have "(take i fin @ drop i args) ! j = fin ! j"
          using i by (simp add: nth_append)
        then show ?thesis by (simp add: len_rewrite_refl)
      next
        case False
        then have "(take i fin @ drop i args) ! j = args ! j"
          using i ia j len by (simp add: nth_append)
        then show ?thesis using rw j by simp
      qed
    qed
    from nf ia have "new_field size_of ?ps ?m (take i fin @ drop i args) (args ! i) = Inr (fin ! i)"
      by blast
    from new_field_again [OF H this tg]
    have "new_field size_of ?ps ?m fin (fin ! i) = Inr (fin ! i)" .
    then show "fill_size size_of ?ps ?m fin i = Inr fin"
      using fill_size_new_field [OF i, of size_of ?ps ?m] by simp
  qed
  then have "fill_sizes size_of ?ps ?m [0..<length fin] fin = Inr fin"
    by (intro fill_sizes_fixed) simp
  then show ?thesis
    by (simp add: assignSizes_def args_scan_eq types sizes)
qed

lemma size_by_type_example: "size_by_type example_size"
  unfolding size_by_type_def
proof (intro allI impI)
  fix a b assume h: "Type a = Type b \<and> (is_LenType (Type a) \<or> is_PtrType (Type a))"
  then have "example_size a = 8" 
    by (cases a) (auto simp: is_LenType_def is_PtrType_def split: Type.splits)
  moreover from h have "example_size b = 8"
    by (cases b) (auto simp: is_LenType_def is_PtrType_def split: Type.splits)
  ultimately show "example_size a = example_size b" by simp
qed

text \<open>
  Claim C9. When \<^verbatim>\<open>assignSizes\<close> returns, a length field whose target is \<^verbatim>\<open>parent\<close> holds
  the sum of \<^verbatim>\<open>Size()\<close> over every field of the sequence, taken before any field is
  rewritten: padding fields and the length field itself are summands like any other.
\<close>

theorem assignSizes_parent_total:
  assumes "assignSizes size_of args = Inr fin"
    and "i < length args"
    and "InnerArg (args ! i) = Inr (Some x)"
    and "Type x = LenType n d ''parent'' bs"
  shows "fin ! i = store_InnerArg (set_Val (sum_list (map size_of args)) x) (args ! i) \<and>
         InnerArg (fin ! i) = Inr (Some (set_Val (sum_list (map size_of args)) x))"
proof -
  let ?ps = "sum_list (map size_of args)"
  from assignSizes_char [OF assms(1)] assms(2) have
    "new_field size_of ?ps (names_map (map Type args) 0 Map.empty)
       (take i fin @ drop i args) (args ! i) = Inr (fin ! i)"
    by blast
  with assms(3,4) have f: "fin ! i = store_InnerArg (set_Val ?ps x) (args ! i)"
    by (simp add: new_field_def)
  have "\<not> is_PtrType (Type (set_Val ?ps x))" using assms(4) by simp
  from InnerArg_store [OF assms(3) this] f show ?thesis by simp
qed

theorem assignSizes_parent_total_witness:
  "assignSizes example_size [int_arg ''a'' 7, ex_pad, ex_len ''parent'' 0] =
     Inr [int_arg ''a'' 7, ex_pad, constArg (LenType ''len'' DirIn ''parent'' 0) 16] \<and>
   InnerArg ([int_arg ''a'' 7, ex_pad, constArg (LenType ''len'' DirIn ''parent'' 0) 16] ! 2) =
     Inr (Some (set_Val (sum_list (map example_size [int_arg ''a'' 7, ex_pad, ex_len ''parent'' 0]))
       (ex_len ''parent'' 0))) \<and>
   sum_list (map example_size [int_arg ''a'' 7, ex_pad, ex_len ''parent'' 0]) = 4 + 4 + 8"
proof -
  have r: "assignSizes example_size [int_arg ''a'' 7, ex_pad, ex_len ''parent'' 0] =
     Inr [int_arg ''a'' 7, ex_pad, constArg (LenType ''len'' DirIn ''parent'' 0) 16]"
    by (simp add: assignSizes_def fill_size_def generateSize_def ex_len_def ex_pad_def
        constArg_def int_arg_def IsPad_def set_Val_def)
  have i: "(2::nat) < length [int_arg ''a'' 7, ex_pad, ex_len ''parent'' 0]"
    by simp
  have x: "InnerArg ([int_arg ''a'' 7, ex_pad, ex_len ''parent'' 0] ! 2) =
      Inr (Some (ex_len ''parent'' 0))"
    by (simp add: ex_len_def constArg_def)
  have t: "Type (ex_len ''parent'' 0) = LenType ''len'' DirIn ''parent'' 0"
    by (simp add: ex_len_def)
  have s: "sum_list (map example_size [int_arg ''a'' 7, ex_pad, ex_len ''parent'' 0]) = 4 + 4 + 8"
    by (simp add: ex_len_def ex_pad_def constArg_def int_arg_def)
  from assignSizes_parent_total [OF r i x t] r s show ?thesis
    by blast
qed

text \<open>
  Claim C6. If a length field of the sequence names a target other than \<^verbatim>\<open>parent\<close> and no
  non-padding field of the sequence has that name, \<^verbatim>\<open>assignSizes\<close> panics: it returns
  no sequence at all.
\<close>

theorem assignSizes_missing_field:
  assumes "i < length args"
    and "InnerArg (args ! i) = Inr (Some x)"
    and "Type x = LenType n d buf bs"
    and "buf \<noteq> ''parent''"
    and "\<forall>j<length args. IsPad (Type (args ! j)) \<or> TypeName (Type (args ! j)) \<noteq> buf"
  shows "\<exists>e. assignSizes size_of args = Inl e"
proof (cases "assignSizes size_of args")
  case (Inl e)
  then show ?thesis by blast
next
  case (Inr fin)
  let ?m = "names_map (map Type args) 0 Map.empty"
  have "\<forall>j<length (map Type args). IsPad (map Type args ! j) \<or> TypeName (map Type args ! j) \<noteq> buf"
    using assms(5) by simp
  from names_map_absent [OF this] have none: "?m buf = None" by simp
  from assignSizes_char [OF Inr] assms(1) have
    "new_field size_of (sum_list (map size_of args)) ?m
       (take i fin @ drop i args) (args ! i) = Inr (fin ! i)"
    by blast
  with assms(2,3,4) none have False
    by (simp add: new_field_def)
  then show ?thesis ..
qed

theorem assignSizes_missing_field_witness:
  "assignSizes example_size [ex_len ''missing'' 0, ex_array] = Inl (PanicLenRef ''len'' ''missing'') \<and>
   (\<exists>e. assignSizes example_size [ex_len ''missing'' 0, ex_array] = Inl e)"
proof -
  have i: "(0::nat) < length [ex_len ''missing'' 0, ex_array]" by simp
  have x: "InnerArg ([ex_len ''missing'' 0, ex_array] ! 0) = Inr (Some (ex_len ''missing'' 0))"
    by (simp add: ex_len_def constArg_def)
  have t: "Type (ex_len ''missing'' 0) = LenType ''len'' DirIn ''missing'' 0"
    by (simp add: ex_len_def)
  have b: "''missing'' \<noteq> ''parent''" by simp
  have a: "\<forall>j<length [ex_len ''missing'' 0, ex_array].
      IsPad (Type ([ex_len ''missing'' 0, ex_array] ! j)) \<or>
      TypeName (Type ([ex_len ''missing'' 0, ex_array] ! j)) \<noteq> ''missing''"
    by (simp add: ex_len_def ex_array_def less_Suc_eq)
  have e: "assignSizes example_size [ex_len ''missing'' 0, ex_array] =
      Inl (PanicLenRef ''len'' ''missing'')"
    by (simp add: assignSizes_def fill_size_def generateSize_def ex_len_def ex_array_def
        constArg_def int_arg_def IsPad_def)
  from assignSizes_missing_field [OF i x t b a, of example_size] e show ?thesis by blast
qed

text \<open>
  Claim C3, amended. A length field targets the sibling array field named \<open>buf\<close>, which
  holds 3 elements occupying 12 bytes. With a declared stride of 4 bytes \<^verbatim>\<open>assignSizes\<close>
  sets the length field to the constant 3 (12 / 4); with a stride of 0 it sets it to 3 as
  well, the element count.
\<close>

theorem assignSizes_array_len:
  assumes r: "assignSizes size_of args = Inr fin"
    and i: "i < length args"
    and x: "InnerArg (args ! i) = Inr (Some x)"
    and t: "Type x = LenType n d buf bs"
    and b: "buf \<noteq> ''parent''"
    and j: "j < length args"
    and tj: "Type (args ! j) = ArrayType buf dj"
    and last: "\<forall>j'. j < j' \<and> j' < length args \<longrightarrow>
        IsPad (Type (args ! j')) \<or> TypeName (Type (args ! j')) \<noteq> buf"
    and elems: "length (Inner (args ! j)) = 3"
    and bytes: "size_of (args ! j) = 12"
    and stride: "bs = 4 \<or> bs = 0"
  shows "InnerArg (fin ! i) = Inr (Some (constArg (Type x) 3))"
proof -
  let ?m = "names_map (map Type args) 0 Map.empty"
  let ?st = "take i fin @ drop i args"
  from assignSizes_char [OF r] have len: "length fin = length args"
    and nf: "new_field size_of (sum_list (map size_of args)) ?m ?st (args ! i) = Inr (fin ! i)"
    using i by blast+
  have "?m buf = Some (0 + j)"
  proof (rule names_map_last)
    show "j < length (map Type args)" using j by simp
    show "\<not> IsPad (map Type args ! j)" using j tj by (simp add: IsPad_def)
    show "TypeName (map Type args ! j) = buf" using j tj by simp
    show "\<forall>j'. j < j' \<and> j' < length (map Type args) \<longrightarrow>
        IsPad (map Type args ! j') \<or> TypeName (map Type args ! j') \<noteq> buf"
      using last by simp
  qed
  then have m: "?m buf = Some j" by simp
  have ij: "InnerArg (args ! j) = Inr (Some (args ! j))"
    using tj by (simp add: InnerArg_nonptr)
  have same: "fin ! j = args ! j"
  proof -
    from assignSizes_rewrite [OF r j] have "len_rewrite (args ! j) (fin ! j)" .
    then show ?thesis using ij tj by (auto simp: len_rewrite_def)
  qed
  have stj: "?st ! j = args ! j"
    using i j len same by (cases "j < i") (simp_all add: nth_append)
  have g: "generateSize size_of (Some (args ! j)) (Type x) = constArg (Type x) 3"
    using tj t elems bytes stride by (auto simp: generateSize_def)
  from nf x t b m stj ij g have f: "fin ! i = store_InnerArg (constArg (Type x) 3) (args ! i)"
    by (simp add: new_field_def)
  have "\<not> is_PtrType (Type (constArg (Type x) 3))" using t by simp
  from InnerArg_store [OF x this] f show ?thesis by simp
qed

theorem assignSizes_array_len_witness:
  "InnerArg ([constArg (LenType ''len'' DirIn ''arr'' 4) 3, ex_array] ! 0) =
     Inr (Some (constArg (LenType ''len'' DirIn ''arr'' 4) 3)) \<and>
   InnerArg ([constArg (LenType ''len'' DirIn ''arr'' 0) 3, ex_array] ! 0) =
     Inr (Some (constArg (LenType ''len'' DirIn ''arr'' 0) 3)) \<and>
   assignSizes example_size [ex_len ''arr'' 4, ex_array] =
     Inr [constArg (LenType ''len'' DirIn ''arr'' 4) 3, ex_array] \<and>
   assignSizes example_size [ex_len ''arr'' 0, ex_array] =
     Inr [constArg (LenType ''len'' DirIn ''arr'' 0) 3, ex_array] \<and>
   length (Inner ex_array) = 3 \<and> example_size ex_array = 12"
proof -
  have r4: "assignSizes example_size [ex_len ''arr'' 4, ex_array] =
      Inr [constArg (LenType ''len'' DirIn ''arr'' 4) 3, ex_array]"
    by (simp add: assignSizes_def fill_size_def generateSize_def ex_len_def ex_array_def
        constArg_def int_arg_def IsPad_def)
  have r0: "assignSizes example_size [ex_len ''arr'' 0, ex_array] =
      Inr [constArg (LenType ''len'' DirIn ''arr'' 0) 3, ex_array]"
    by (simp add: assignSizes_def fill_size_def generateSize_def ex_len_def ex_array_def
        constArg_def int_arg_def IsPad_def)
  have i: "\<And>s. (0::nat) < length [ex_len ''arr'' s, ex_array]" by simp
  have x: "\<And>s. InnerArg ([ex_len ''arr'' s, ex_array] ! 0) = Inr (Some (ex_len ''arr'' s))"
    by (simp add: ex_len_def constArg_def)
  have t: "\<And>s. Type (ex_len ''arr'' s) = LenType ''len'' DirIn ''arr'' s"
    by (simp add: ex_len_def)
  have b: "''arr'' \<noteq> ''parent''" by simp
  have j: "\<And>s. (1::nat) < length [ex_len ''arr'' s, ex_array]" by simp
  have tj: "\<And>s. Type ([ex_len ''arr'' s, ex_array] ! 1) = ArrayType ''arr'' DirIn"
    by (simp add: ex_array_def)
  have last: "\<And>s. \<forall>j'. 1 < j' \<and> j' < length [ex_len ''arr'' s, ex_array] \<longrightarrow>
      IsPad (Type ([ex_len ''arr'' s, ex_array] ! j')) \<or>
      TypeName (Type ([ex_len ''arr'' s, ex_array] ! j')) \<noteq> ''arr''"
  proof (intro allI impI)
    fix s j' assume "1 < j' \<and> j' < length [ex_len ''arr'' s, ex_array]"
    then have False by auto
    then show "IsPad (Type ([ex_len ''arr'' s, ex_array] ! j')) \<or>
      TypeName (Type ([ex_len ''arr'' s, ex_array] ! j')) \<noteq> ''arr''" ..
  qed
  have elems: "\<And>s. length (Inner ([ex_len ''arr'' s, ex_array] ! 1)) = 3"
    by (simp add: ex_array_def)
  have bytes: "\<And>s. example_size ([ex_len ''arr'' s, ex_array] ! 1) = 12"
    by (simp add: ex_array_def int_arg_def constArg_def)
  have w4: "InnerArg ([constArg (LenType ''len'' DirIn ''arr'' 4) 3, ex_array] ! 0) =
     Inr (Some (constArg (Type (ex_len ''arr'' 4)) 3))"
    by (rule assignSizes_array_len [OF r4 i x t b j tj last elems bytes]) simp
  have w0: "InnerArg ([constArg (LenType ''len'' DirIn ''arr'' 0) 3, ex_array] ! 0) =
     Inr (Some (constArg (Type (ex_len ''arr'' 0)) 3))"
    by (rule assignSizes_array_len [OF r0 i x t b j tj last elems bytes]) simp
  from w4 w0 r4 r0 t elems [of 0] bytes [of 0] show ?thesis by simp
qed

text \<open>
  Claim C3 as stated fails: with stride 0 the length of a 3-element, 12-byte array is 3,
  not 12.
\<close>

theorem assignSizes_stride0_counterexample:
  "assignSizes example_size [ex_len ''arr'' 0, ex_array] =
     Inr [constArg (LenType ''len'' DirIn ''arr'' 0) 3, ex_array] \<and>
   length (Inner ex_array) = 3 \<and> example_size ex_array = 12 \<and>
   Val (constArg (LenType ''len'' DirIn ''arr'' 0) 3) \<noteq> 12"
  by (simp add: assignSizes_def fill_size_def generateSize_def ex_len_def ex_array_def
      constArg_def int_arg_def IsPad_def)

text \<open>
  Claim C7. Provided the size of a length field or pointer is fixed by its type (so the
  first run changes no field's size), a second run of \<^verbatim>\<open>assignSizes\<close> on the result of
  the first returns that result unchanged: every length field keeps its value.
\<close>

theorem assignSizes_idempotent:
  assumes "size_by_type size_of" and "assignSizes size_of args = Inr fin"
  shows "assignSizes size_of fin = Inr fin"
  using assms by (rule assignSizes_again)

theorem assignSizes_idempotent_witness:
  "size_by_type example_size \<and>
   assignSizes example_size [ex_len ''arr'' 4, ex_array, ex_pad, ex_len ''parent'' 0] =
     Inr [constArg (LenType ''len'' DirIn ''arr'' 4) 3, ex_array, ex_pad,
          constArg (LenType ''len'' DirIn ''parent'' 0) 32] \<and>
   assignSizes example_size [constArg (LenType ''len'' DirIn ''arr'' 4) 3, ex_array, ex_pad,
          constArg (LenType ''len'' DirIn ''parent'' 0) 32] =
     Inr [constArg (LenType ''len'' DirIn ''arr'' 4) 3, ex_array, ex_pad,
          constArg (LenType ''len'' DirIn ''parent'' 0) 32]"
proof -
  have r: "assignSizes example_size [ex_len ''arr'' 4, ex_array, ex_pad, ex_len ''parent'' 0] =
     Inr [constArg (LenType ''len'' DirIn ''arr'' 4) 3, ex_array, ex_pad,
          constArg (LenType ''len'' DirIn ''parent'' 0) 32]"
    by (simp add: assignSizes_def fill_size_def generateSize_def ex_len_def ex_array_def
        ex_pad_def constArg_def int_arg_def IsPad_def set_Val_def)
  from assignSizes_idempotent [OF size_by_type_example r] size_by_type_example r
  show ?thesis by blast
qed

end
